theory Spec2Isabelle
  imports Main "HOL-Library.List_Lexorder" "HOL-Library.AList"
begin

section \<open>Text: Python strings as lists of code points\<close>

text \<open>
  A Python \<open>str\<close> is a sequence of Unicode code points.  The parser looks for the
  en dash (U+2013) and the em dash (U+2014) as single characters, so a character is a
  code point (an integer, as \<open>ord\<close> gives it), not a byte.  Strings compare
  lexicographically by code point, which is the order of \<open>HOL-Library.List_Lexorder\<close>.
\<close>

type_synonym uchar = int
type_synonym ustring = "uchar list"

definition ascii :: "string \<Rightarrow> ustring" where
  "ascii s = map of_char s"

definition newline :: uchar where "newline = 10"
definition en_dash :: uchar where "en_dash = 8211"
definition em_dash :: uchar where "em_dash = 8212"
definition hyphen :: uchar where "hyphen = 45"

fun in_ranges :: "(int \<times> int) list \<Rightarrow> int \<Rightarrow> bool" where
  "in_ranges [] c = False"
| "in_ranges ((lo, hi) # rs) c = ((lo \<le> c \<and> c \<le> hi) \<or> in_ranges rs c)"

text \<open>
  The character classes of the Python runtime (Unicode 14.0, CPython 3.11):
  \<open>str.isspace\<close>, which is also \<open>\s\<close> of \<open>re\<close> and what \<open>str.strip()\<close> removes;
  the decimal digits (category Nd), which is \<open>\d\<close>; and \<open>str.isdigit\<close>.
\<close>

definition whitespace_table :: "(int \<times> int) list" where
  "whitespace_table = [(9, 13), (28, 32), (133, 133), (160, 160), (5760, 5760),
     (8192, 8202), (8232, 8233), (8239, 8239), (8287, 8287), (12288, 12288)]"

definition decimal_table :: "(int \<times> int) list" where
  "decimal_table = [(48, 57), (1632, 1641), (1776, 1785), (1984, 1993), (2406, 2415),
     (2534, 2543), (2662, 2671), (2790, 2799), (2918, 2927), (3046, 3055), (3174, 3183),
     (3302, 3311), (3430, 3439), (3558, 3567), (3664, 3673), (3792, 3801), (3872, 3881),
     (4160, 4169), (4240, 4249), (6112, 6121), (6160, 6169), (6470, 6479), (6608, 6617),
     (6784, 6793), (6800, 6809), (6992, 7001), (7088, 7097), (7232, 7241), (7248, 7257),
     (42528, 42537), (43216, 43225), (43264, 43273), (43472, 43481), (43504, 43513),
     (43600, 43609), (44016, 44025), (65296, 65305), (66720, 66729), (68912, 68921),
     (69734, 69743), (69872, 69881), (69942, 69951), (70096, 70105), (70384, 70393),
     (70736, 70745), (70864, 70873), (71248, 71257), (71360, 71369), (71472, 71481),
     (71904, 71913), (72016, 72025), (72784, 72793), (73040, 73049), (73120, 73129),
     (92768, 92777), (92864, 92873), (93008, 93017), (120782, 120831), (123200, 123209),
     (123632, 123641), (125264, 125273), (130032, 130041)]"

definition other_digit_table :: "(int \<times> int) list" where
  "other_digit_table = [(178, 179), (185, 185), (4969, 4977), (6618, 6618), (8304, 8304),
     (8308, 8313), (8320, 8329), (9312, 9320), (9332, 9340), (9352, 9360), (9450, 9450),
     (9461, 9469), (9471, 9471), (10102, 10110), (10112, 10120), (10122, 10130),
     (68160, 68163), (69216, 69224), (69714, 69722), (127232, 127242)]"

definition isspace :: "uchar \<Rightarrow> bool" where
  "isspace c = in_ranges whitespace_table c"

definition isdecimal :: "uchar \<Rightarrow> bool" where
  "isdecimal c = in_ranges decimal_table c"

definition isdigit_char :: "uchar \<Rightarrow> bool" where
  "isdigit_char c = (isdecimal c \<or> in_ranges other_digit_table c)"

text \<open>\<open>s.isdigit()\<close>: every character is a digit and there is at least one.\<close>

definition isdigit :: "ustring \<Rightarrow> bool" where
  "isdigit s = (s \<noteq> [] \<and> list_all isdigit_char s)"

subsection \<open>The string methods the parser uses\<close>

definition lstrip :: "ustring \<Rightarrow> ustring" where
  "lstrip s = dropWhile isspace s"

definition rstrip :: "ustring \<Rightarrow> ustring" where
  "rstrip s = rev (dropWhile isspace (rev s))"

definition strip :: "ustring \<Rightarrow> ustring" where
  "strip s = rstrip (lstrip s)"

text \<open>\<open>s.lstrip(chars)\<close> and \<open>s.rstrip(chars)\<close> with an explicit set of characters.\<close>

definition lstrip_chars :: "ustring \<Rightarrow> ustring \<Rightarrow> ustring" where
  "lstrip_chars cs s = dropWhile (\<lambda>c. c \<in> set cs) s"

definition rstrip_chars :: "ustring \<Rightarrow> ustring \<Rightarrow> ustring" where
  "rstrip_chars cs s = rev (dropWhile (\<lambda>c. c \<in> set cs) (rev s))"

definition startswith :: "ustring \<Rightarrow> ustring \<Rightarrow> bool" where
  "startswith s p = (take (length p) s = p)"

text \<open>\<open>p in s\<close>: \<open>p\<close> occurs in \<open>s\<close> as a substring.\<close>

fun contains :: "ustring \<Rightarrow> ustring \<Rightarrow> bool" where
  "contains [] p = (p = [])"
| "contains (c # cs) p = (startswith (c # cs) p \<or> contains cs p)"

text \<open>
  \<open>s.split(sep)\<close>: the pieces between the non-overlapping occurrences of \<open>sep\<close>, found
  from the left.  \<open>cur\<close> holds the current piece, reversed.  Python raises ValueError
  for an empty separator; every separator of the parser is a non-empty literal, and
  with an empty one this function returns the string unsplit.
\<close>

function split_from :: "ustring \<Rightarrow> ustring \<Rightarrow> ustring \<Rightarrow> ustring list" where
  "split_from sep cur [] = [rev cur]"
| "split_from sep cur (c # cs) =
     (if sep \<noteq> [] \<and> startswith (c # cs) sep
      then rev cur # split_from sep [] (drop (length sep) (c # cs))
      else split_from sep (c # cur) cs)"
  by pat_completeness auto
termination
  by (relation "measure (\<lambda>(sep, cur, s). length s)") auto

definition py_split :: "ustring \<Rightarrow> ustring \<Rightarrow> ustring list" where
  "py_split sep s = split_from sep [] s"

text \<open>\<open>s.split()\<close>: the maximal runs of non-whitespace characters.\<close>

fun split_ws_from :: "ustring \<Rightarrow> ustring \<Rightarrow> ustring list" where
  "split_ws_from cur [] = (if cur = [] then [] else [rev cur])"
| "split_ws_from cur (c # cs) =
     (if isspace c
      then (if cur = [] then split_ws_from [] cs else rev cur # split_ws_from [] cs)
      else split_ws_from (c # cur) cs)"

definition split_ws :: "ustring \<Rightarrow> ustring list" where
  "split_ws s = split_ws_from [] s"

text \<open>\<open>sep.join(xs)\<close>.\<close>

fun join :: "ustring \<Rightarrow> ustring list \<Rightarrow> ustring" where
  "join sep [] = []"
| "join sep [x] = x"
| "join sep (x # y # ys) = x @ sep @ join sep (y # ys)"

section \<open>Regular expressions\<close>

text \<open>
  The patterns of the parser, as data, and \<open>re.match\<close> on them.  \<open>matches r s\<close> lists
  every way \<open>r\<close> can match a prefix of \<open>s\<close>, in the order in which Python's backtracking
  matcher tries them (a greedy repetition tries the longest run first, an optional part
  is tried before it is left out); each way is the rest of the string with the groups
  captured.  \<open>re.match\<close> takes the first.  Repetition is only ever applied to a character
  class in these patterns.  The leading \<open>^\<close> of each pattern holds at the position
  \<open>re.match\<close> starts from and is left out.
\<close>

datatype regex =
    Lit ustring
  | Cls "uchar \<Rightarrow> bool"
  | Star "uchar \<Rightarrow> bool"
  | Cat regex regex
  | Opt regex
  | Grp nat regex
  | Eos

type_synonym captures = "(nat \<times> ustring) list"

fun matches :: "regex \<Rightarrow> ustring \<Rightarrow> (ustring \<times> captures) list" where
  "matches (Lit w) s = (if startswith s w then [(drop (length w) s, [])] else [])"
| "matches (Cls p) s = (case s of [] \<Rightarrow> [] | c # cs \<Rightarrow> if p c then [(cs, [])] else [])"
| "matches (Star p) s =
     map (\<lambda>k. (drop k s, [])) (rev [0 ..< Suc (length (takeWhile p s))])"
| "matches (Cat a b) s =
     concat (map (\<lambda>(s1, c1). map (\<lambda>(s2, c2). (s2, c1 @ c2)) (matches b s1)) (matches a s))"
| "matches (Opt a) s = matches a s @ [(s, [])]"
| "matches (Grp i a) s =
     map (\<lambda>(s1, c1). (s1, (i, take (length s - length s1) s) # c1)) (matches a s)"
| "matches Eos s = (if s = [] \<or> s = [newline] then [(s, [])] else [])"

definition re_match :: "regex \<Rightarrow> ustring \<Rightarrow> captures option" where
  "re_match r s = (case matches r s of [] \<Rightarrow> None | (rest, caps) # _ \<Rightarrow> Some caps)"

text \<open>
  \<open>m.group(i)\<close>.  Every group of the parser's patterns takes part in every match, so
  Python's \<open>None\<close> for a group that did not is never seen; it is the empty string here.
\<close>

definition group :: "captures \<Rightarrow> nat \<Rightarrow> ustring" where
  "group m i = (case map_of m i of Some g \<Rightarrow> g | None \<Rightarrow> [])"

definition seq :: "regex list \<Rightarrow> regex" where
  "seq rs = foldr Cat rs (Lit [])"

definition plus :: "(uchar \<Rightarrow> bool) \<Rightarrow> regex" where
  "plus p = Cat (Cls p) (Star p)"

definition upper :: "uchar \<Rightarrow> bool" where
  "upper c = (65 \<le> c \<and> c \<le> 90)"

definition dash :: "uchar \<Rightarrow> bool" where
  "dash c = (c = en_dash \<or> c = em_dash \<or> c = hyphen)"

definition blank :: "uchar \<Rightarrow> bool" where
  "blank c = (c = 32 \<or> c = 9)"

definition anychar :: "uchar \<Rightarrow> bool" where
  "anychar c = (c \<noteq> newline)"

definition is_char :: "uchar \<Rightarrow> uchar \<Rightarrow> bool" where
  "is_char d c = (c = d)"

definition hashes :: regex where
  "hashes = Opt (Cat (Lit (ascii ''######'')) (Star isspace))"

definition section_pattern :: regex where
  "section_pattern = seq [Lit (ascii ''# Section ''), Grp 1 (Cls upper), Star isspace,
     Cls dash, Star isspace, Grp 2 (plus anychar), Eos]"

definition division_pattern :: regex where
  "division_pattern = seq [hashes, Grp 1 (seq [Cls isdecimal, Cls isdecimal]),
     plus isspace, Grp 2 (plus anychar), Eos]"

definition group_pattern :: regex where
  "group_pattern = seq [hashes,
     Grp 1 (seq [Cls isdecimal, Cls isdecimal, Cls (is_char 46), Cls isdecimal]),
     plus isspace, Grp 2 (plus anychar), Eos]"

definition class_pattern :: regex where
  "class_pattern = seq [hashes,
     Grp 1 (seq [Cls isdecimal, Cls isdecimal, Cls (is_char 46), Cls isdecimal, Cls isdecimal]),
     plus isspace, Grp 2 (plus anychar), Eos]"

text \<open>The pattern of \<open>split_nace_by_sections\<close>.\<close>

definition section_start_pattern :: regex where
  "section_start_pattern = seq [Lit (ascii ''# Section ''), Cls upper, Star blank, Cls dash]"

section \<open>The parser\<close>

subsection \<open>Data\<close>

text \<open>The only exception the parser can raise: an index into a list that is too short.\<close>

datatype error = IndexError

definition bindE :: "error + 'a \<Rightarrow> ('a \<Rightarrow> error + 'b) \<Rightarrow> error + 'b" where
  "bindE m f = (case m of Inl e \<Rightarrow> Inl e | Inr x \<Rightarrow> f x)"

text \<open>\<open>xs[n]\<close> for \<open>n \<ge> 0\<close>.\<close>

definition item :: "'a list \<Rightarrow> nat \<Rightarrow> error + 'a" where
  "item xs n = (if n < length xs then Inr (xs ! n) else Inl IndexError)"

text \<open>The dictionaries \<open>current_section\<close>, \<open>current_division\<close> and \<open>current_group\<close>.\<close>

record ancestor =
  code :: ustring
  name :: ustring
  description :: ustring

definition no_ancestor :: ancestor where
  "no_ancestor = \<lparr>code = [], name = [], description = []\<rparr>"

text \<open>An ancestor recovered from a class code: only its code is known.\<close>

definition recovered :: "ustring \<Rightarrow> ancestor" where
  "recovered c = \<lparr>code = c, name = [], description = []\<rparr>"

record entry =
  activity :: ustring
  subactivities :: "ustring list"

record classification =
  section_code :: ustring
  section_name :: ustring
  section_description :: ustring
  division_code :: ustring
  division_name :: ustring
  division_description :: ustring
  group_code :: ustring
  group_name :: ustring
  group_description :: ustring
  class_code :: ustring
  class_name :: ustring
  class_description :: ustring
  included_activities :: "entry list"
  excluded_activities :: "entry list"

datatype mode = Includes | Excludes

record pstate =
  activities :: "classification list"
  processed_codes :: "ustring set"
  current_section :: ancestor
  current_division :: ancestor
  current_group :: ancestor

definition initial_state :: pstate where
  "initial_state = \<lparr>activities = [], processed_codes = {}, current_section = no_ancestor,
     current_division = no_ancestor, current_group = no_ancestor\<rparr>"

subsection \<open>Looking ahead for a description\<close>

text \<open>\<open>" ".join(lines[j : j + 3])\<close>\<close>

definition window :: "ustring list \<Rightarrow> nat \<Rightarrow> ustring" where
  "window lines j = join (ascii '' '') (take 3 (drop j lines))"

text \<open>
  \<open>desc_text.split(marker)[1].split("\n")[0].strip()\<close>
\<close>

definition after_marker :: "ustring \<Rightarrow> ustring \<Rightarrow> error + ustring" where
  "after_marker marker desc_text =
     bindE (item (py_split marker desc_text) 1) (\<lambda>rest.
     bindE (item (py_split [newline] rest) 0) (\<lambda>first.
     Inr (strip first)))"

text \<open>
  The loop \<open>for j in range(i + 1, min(i + 10, len(lines)))\<close> over the indices \<open>js\<close>: the
  description comes from the first window that contains the marker; when none does, it
  stays the empty string it was set to.
\<close>

fun find_description :: "ustring \<Rightarrow> ustring list \<Rightarrow> nat list \<Rightarrow> error + ustring" where
  "find_description marker lines [] = Inr []"
| "find_description marker lines (j # js) =
     (let desc_text = window lines j in
      if contains desc_text marker then after_marker marker desc_text
      else find_description marker lines js)"

definition scan_description :: "ustring \<Rightarrow> ustring list \<Rightarrow> nat \<Rightarrow> error + ustring" where
  "scan_description marker lines i =
     find_description marker lines [i + 1 ..< min (i + 10) (length lines)]"

subsection \<open>The activities of a class\<close>

text \<open>\<open>activity[...][-1]["subactivities"].append(subactivity)\<close>\<close>

definition append_subactivity :: "entry list \<Rightarrow> ustring \<Rightarrow> error + entry list" where
  "append_subactivity es sub =
     (if es = [] then Inl IndexError
      else Inr (butlast es @ [(last es)\<lparr>subactivities := subactivities (last es) @ [sub]\<rparr>]))"

text \<open>
  The test that ends the scan:
  \<open>(re.match(class_pattern, next_line) and len(next_line.split()[0]) == 5)
     or next_line.startswith("#")\<close>
\<close>

definition ends_scan :: "ustring \<Rightarrow> error + bool" where
  "ends_scan next_line =
     (case re_match class_pattern next_line of
        Some m \<Rightarrow> bindE (item (split_ws next_line) 0) (\<lambda>tok.
                    Inr (length tok = 5 \<or> startswith next_line (ascii ''#'')))
      | None \<Rightarrow> Inr (startswith next_line (ascii ''#'')))"

text \<open>Python's truth value of \<open>current_activity\<close>: neither \<open>None\<close> nor the empty string.\<close>

definition truthy :: "ustring option \<Rightarrow> bool" where
  "truthy a = (case a of None \<Rightarrow> False | Some s \<Rightarrow> s \<noteq> [])"

text \<open>The block under \<open>if mode:\<close>, for a mode that is set.\<close>

definition in_mode ::
  "mode \<Rightarrow> ustring \<Rightarrow> ustring option \<Rightarrow> classification \<Rightarrow> error + (ustring option \<times> classification)"
where
  "in_mode m next_line current_activity act =
     (if startswith next_line (ascii ''-'') then
        (let a = rstrip_chars (ascii '':'') (lstrip_chars (ascii ''- '') next_line);
             e = \<lparr>activity = a, subactivities = []\<rparr>
         in if m = Includes
            then Inr (Some a, act\<lparr>included_activities := included_activities act @ [e]\<rparr>)
            else Inr (Some a, act\<lparr>excluded_activities := excluded_activities act @ [e]\<rparr>))
      else if startswith next_line (ascii ''*'') \<and> truthy current_activity then
        (let subactivity = strip (lstrip_chars (ascii ''* '') next_line)
         in if m = Includes
            then bindE (append_subactivity (included_activities act) subactivity) (\<lambda>es.
                   Inr (current_activity, act\<lparr>included_activities := es\<rparr>))
            else bindE (append_subactivity (excluded_activities act) subactivity) (\<lambda>es.
                   Inr (current_activity, act\<lparr>excluded_activities := es\<rparr>)))
      else Inr (current_activity, act))"

text \<open>
  The loop \<open>while j < len(lines) and j < i + 50\<close>, with its \<open>break\<close> and its
  \<open>continue\<close> on a blank line.
\<close>

function activity_loop ::
  "ustring list \<Rightarrow> nat \<Rightarrow> nat \<Rightarrow> mode option \<Rightarrow> ustring option \<Rightarrow> classification
     \<Rightarrow> error + classification"
where
  "activity_loop lines i j md current_activity act =
     (if j < length lines \<and> j < i + 50 then
        (let next_line = strip (lines ! j) in
         case ends_scan next_line of
           Inl e \<Rightarrow> Inl e
         | Inr True \<Rightarrow> Inr act
         | Inr False \<Rightarrow>
             (let md' = (if contains next_line (ascii ''This class includes:'') then Some Includes
                         else if contains next_line (ascii ''This class excludes:'') then Some Excludes
                         else md)
              in if \<not> contains next_line (ascii ''This class includes:'')
                    \<and> \<not> contains next_line (ascii ''This class excludes:'') \<and> next_line = []
                 then activity_loop lines i (j + 1) md current_activity act
                 else (case md' of
                         None \<Rightarrow> activity_loop lines i (j + 1) md' current_activity act
                       | Some m \<Rightarrow>
                           (case in_mode m next_line current_activity act of
                              Inl e \<Rightarrow> Inl e
                            | Inr (ca, act') \<Rightarrow> activity_loop lines i (j + 1) md' ca act'))))
      else Inr act)"
  by pat_completeness auto
termination
  by (relation "measure (\<lambda>(lines, i, j, md, ca, act). length lines - j)") auto

subsection \<open>One line of the document\<close>

text \<open>
  Which branch of the loop body a stripped line takes: the \<open>continue\<close> for a blank or
  all-digit line, then the chain \<open>if section ... elif division ... elif group ... elif
  class\<close>, each with the match object it binds.
\<close>

datatype heading =
    Skipped
  | SectionH captures
  | DivisionH captures
  | GroupH captures
  | ClassH captures
  | Unmatched

definition match_line :: "ustring \<Rightarrow> heading" where
  "match_line line =
     (if line = [] \<or> isdigit line then Skipped
      else case re_match section_pattern line of Some m \<Rightarrow> SectionH m | None \<Rightarrow>
          (case re_match division_pattern line of Some m \<Rightarrow> DivisionH m | None \<Rightarrow>
          (case re_match group_pattern line of Some m \<Rightarrow> GroupH m | None \<Rightarrow>
          (case re_match class_pattern line of Some m \<Rightarrow> ClassH m | None \<Rightarrow> Unmatched))))"

text \<open>The record a class heading starts with, before its activities are read.\<close>

definition new_activity ::
  "ancestor \<Rightarrow> ancestor \<Rightarrow> ancestor \<Rightarrow> ustring \<Rightarrow> ustring \<Rightarrow> ustring \<Rightarrow> ustring
     \<Rightarrow> classification"
where
  "new_activity sec dv gr dcode gcode ccode cname =
     \<lparr>section_code = code sec, section_name = name sec,
      section_description = description sec,
      division_code = dcode, division_name = name dv,
      division_description = description dv,
      group_code = gcode, group_name = name gr,
      group_description = description gr,
      class_code = ccode, class_name = cname, class_description = [],
      included_activities = [], excluded_activities = []\<rparr>"

text \<open>
  The branch of a class heading.  The test \<open>len(class_code) == 5 and class_code[2] == "."\<close>
  reads index 2 only when the length is 5.
\<close>

definition class_branch :: "ustring list \<Rightarrow> nat \<Rightarrow> captures \<Rightarrow> pstate \<Rightarrow> error + pstate" where
  "class_branch lines i m st =
     (let ccode = group m 1 in
      if length ccode = 5 \<and> ccode ! 2 = 46 \<and> ccode \<notin> processed_codes st then
        bindE (item (py_split (ascii ''.'') ccode) 0) (\<lambda>dcode.
          let gcode = take 4 ccode;
              dv = (if dcode \<noteq> code (current_division st) then recovered dcode
                    else current_division st);
              gr = (if gcode \<noteq> code (current_group st) then recovered gcode
                    else current_group st);
              st1 = st\<lparr>current_division := dv, current_group := gr\<rparr>
          in if code (current_section st) \<noteq> [] then
               bindE (activity_loop lines i (i + 1) None None
                        (new_activity (current_section st) dv gr dcode gcode ccode (group m 2)))
                 (\<lambda>act. Inr (st1\<lparr>activities := activities st1 @ [act],
                                   processed_codes := insert ccode (processed_codes st1)\<rparr>))
             else Inr st1)
      else Inr st)"

definition parse_line :: "ustring list \<Rightarrow> nat \<Rightarrow> pstate \<Rightarrow> error + pstate" where
  "parse_line lines i st =
     (case match_line (strip (lines ! i)) of
        Skipped \<Rightarrow> Inr st
      | SectionH m \<Rightarrow>
          bindE (scan_description (ascii ''This section includes'') lines i) (\<lambda>d.
            Inr (st\<lparr>current_section := \<lparr>code = group m 1, name = group m 2, description = d\<rparr>\<rparr>))
      | DivisionH m \<Rightarrow>
          (let div_code = group m 1 in
           if length div_code = 2 \<and> isdigit div_code then
             bindE (scan_description (ascii ''This division includes'') lines i) (\<lambda>d.
               Inr (st\<lparr>current_division := \<lparr>code = div_code, name = group m 2, description = d\<rparr>\<rparr>))
           else Inr st)
      | GroupH m \<Rightarrow>
          (let gcode = group m 1 in
           bindE (item (py_split (ascii ''.'') gcode) 0) (\<lambda>prefix.
             if prefix = code (current_division st) then
               bindE (scan_description (ascii ''This group includes'') lines i) (\<lambda>d.
                 Inr (st\<lparr>current_group := \<lparr>code = gcode, name = group m 2, description = d\<rparr>\<rparr>))
             else Inr st))
      | ClassH m \<Rightarrow> class_branch lines i m st
      | Unmatched \<Rightarrow> Inr st)"

subsection \<open>The document\<close>

text \<open>The loop \<open>while i < len(lines)\<close>.\<close>

function parse_loop :: "ustring list \<Rightarrow> nat \<Rightarrow> pstate \<Rightarrow> error + pstate" where
  "parse_loop lines i st =
     (if i < length lines then
        (case parse_line lines i st of
           Inl e \<Rightarrow> Inl e
         | Inr st' \<Rightarrow> parse_loop lines (i + 1) st')
      else Inr st)"
  by pat_completeness auto
termination
  by (relation "measure (\<lambda>(lines, i, st). length lines - i)") auto

text \<open>
  \<open>activities.sort(key=lambda x: x["class_code"])\<close> is a stable sort by the code-point
  order of the keys, as \<open>sort_key\<close> is.
\<close>

definition parse_nace_activities :: "ustring \<Rightarrow> error + classification list" where
  "parse_nace_activities text =
     bindE (parse_loop (py_split [newline] text) 0 initial_state) (\<lambda>st.
       Inr (sort_key class_code (activities st)))"

section \<open>The validator\<close>

text \<open>
  What \<open>validate_nace_activities\<close> prints, as the values it formats: the total, the
  sorted distinct codes of each level (printed with their number, and for all but the
  sections cut to the first five), and the number of records of each section in the
  order of the section codes.  The rendering to text is not modelled.
\<close>

record report =
  total_classes :: nat
  sections :: "ustring list"
  divisions :: "ustring list"
  groups :: "ustring list"
  classes :: "ustring list"
  classes_per_section :: "(ustring \<times> nat) list"

text \<open>\<open>section_counts[section] = section_counts.get(section, 0) + 1\<close>\<close>

definition count_section :: "classification \<Rightarrow> (ustring \<times> nat) list \<Rightarrow> (ustring \<times> nat) list" where
  "count_section a section_counts =
     AList.update (section_code a)
       ((case map_of section_counts (section_code a) of None \<Rightarrow> 0 | Some n \<Rightarrow> n) + 1)
       section_counts"

definition validate_nace_activities :: "classification list \<Rightarrow> report \<times> bool" where
  "validate_nace_activities acts =
     (let total = length acts;
          section_counts = fold count_section acts []
      in (\<lparr>total_classes = total,
           sections = sorted_list_of_set (set (map section_code acts)),
           divisions = sorted_list_of_set (set (map division_code acts)),
           groups = sorted_list_of_set (set (map group_code acts)),
           classes = sorted_list_of_set (set (map class_code acts)),
           classes_per_section = sort_key fst section_counts\<rparr>,
          total = 615))"

section \<open>The segmenter\<close>

record segment =
  name :: ustring
  content :: ustring

text \<open>
  The loop \<open>for separator in ['\<dots>', '\<dots>', '-']\<close> over the en dash, the em dash and the
  hyphen: the first that occurs in the line gives the new name; when none occurs the
  name stays what it was.
\<close>

fun section_name_of :: "uchar list \<Rightarrow> ustring \<Rightarrow> ustring option \<Rightarrow> error + ustring option" where
  "section_name_of [] line current = Inr current"
| "section_name_of (separator # rest) line current =
     (if contains line [separator]
      then bindE (item (py_split [separator] line) 0) (\<lambda>piece. Inr (Some (strip piece)))
      else section_name_of rest line current)"

text \<open>The state of the loop: \<open>sections\<close>, \<open>current_section\<close>, \<open>current_content\<close>.\<close>

type_synonym split_state = "segment list \<times> ustring option \<times> ustring list"

definition split_line :: "ustring \<Rightarrow> split_state \<Rightarrow> error + split_state" where
  "split_line raw st =
     (case st of (done, current, current_content) \<Rightarrow>
        let line = strip raw in
        if re_match section_start_pattern line \<noteq> None then
          (let done' = (if truthy current
                        then done @ [\<lparr>name = (case current of Some n \<Rightarrow> n | None \<Rightarrow> []),
                                       content = join [newline] current_content\<rparr>]
                        else done)
           in bindE (section_name_of [en_dash, em_dash, hyphen] line current) (\<lambda>current'.
                Inr (done', current', [line])))
        else if truthy current then Inr (done, current, current_content @ [line])
        else Inr st)"

fun split_loop :: "ustring list \<Rightarrow> split_state \<Rightarrow> error + split_state" where
  "split_loop [] st = Inr st"
| "split_loop (raw # lines) st = bindE (split_line raw st) (split_loop lines)"

definition split_nace_by_sections :: "ustring \<Rightarrow> error + segment list" where
  "split_nace_by_sections text =
     bindE (split_loop (py_split [newline] text) ([], None, [])) (\<lambda>(done, current, current_content).
       if truthy current \<and> current_content \<noteq> []
       then Inr (done @ [\<lparr>name = (case current of Some n \<Rightarrow> n | None \<Rightarrow> []),
                          content = join [newline] current_content\<rparr>])
       else Inr done)"

subsection \<open>The segmentation in the words of the specification\<close>

text \<open>
  Not taken from the code: the result as the specification describes it, for a list of
  lines.  A line starts a section when it matches the pattern; the name of a section is
  the text of its heading before the first occurrence of the separator, which is the en
  dash if the heading has one, else the em dash if it has one, else the hyphen, trimmed;
  its content is the heading and the lines after it up to the next heading, joined by
  newlines.  Lines before the first heading belong to no section.
\<close>

definition section_start :: "ustring \<Rightarrow> bool" where
  "section_start l = (re_match section_start_pattern l \<noteq> None)"

definition first_separator :: "ustring \<Rightarrow> uchar" where
  "first_separator l =
     (if en_dash \<in> set l then en_dash else if em_dash \<in> set l then em_dash else hyphen)"

definition name_before_dash :: "ustring \<Rightarrow> ustring" where
  "name_before_dash l = strip (takeWhile (\<lambda>c. c \<noteq> first_separator l) l)"

fun segments :: "ustring list \<Rightarrow> segment list" where
  "segments [] = []"
| "segments (l # ls) =
     (if section_start l
      then \<lparr>name = name_before_dash l,
            content = join [newline] (l # takeWhile (\<lambda>x. \<not> section_start x) ls)\<rparr> # segments ls
      else segments ls)"

section \<open>Where a record comes from\<close>

text \<open>
  Two predicates used in the proofs below.  A record is \<open>emitted_from\<close> the first \<open>n\<close>
  lines when some class heading among them gives its class, group and division code and
  a section heading before that one gives its section code.  \<open>section_seen\<close>: the current
  section is still empty or was set by a section heading among the first \<open>n\<close> lines.
\<close>

definition emitted_from :: "ustring list \<Rightarrow> nat \<Rightarrow> classification \<Rightarrow> bool" where
  "emitted_from lines n r \<longleftrightarrow>
     (\<exists>k j ms mc. k < j \<and> j < n
        \<and> match_line (strip (lines ! k)) = SectionH ms \<and> section_code r = group ms 1
        \<and> match_line (strip (lines ! j)) = ClassH mc \<and> class_code r = group mc 1
        \<and> group_code r = take 4 (group mc 1)
        \<and> division_code r = takeWhile (\<lambda>x. x \<noteq> 46) (group mc 1))"

definition section_seen :: "ustring list \<Rightarrow> nat \<Rightarrow> pstate \<Rightarrow> bool" where
  "section_seen lines n st \<longleftrightarrow>
     code (current_section st) = [] \<or>
     (\<exists>k ms. k < n \<and> match_line (strip (lines ! k)) = SectionH ms
        \<and> code (current_section st) = group ms 1)"



text \<open>The equations of the loops recurse without a pattern: they are unfolded by hand.\<close>

declare activity_loop.simps [simp del]
declare parse_loop.simps [simp del]

section \<open>Auxiliary facts\<close>

subsection \<open>Matches\<close>

lemma startswith_iff: "startswith s w \<longleftrightarrow> (\<exists>r. s = w @ r)"
  unfolding startswith_def
  by (metis append_eq_conv_conj)

lemma in_matches_Lit:
  "(r, c) \<in> set (matches (Lit w) s) \<longleftrightarrow> s = w @ r \<and> c = []"
  by (auto simp: startswith_iff)

lemma in_matches_Cls:
  "(r, c) \<in> set (matches (Cls p) s) \<longleftrightarrow> (\<exists>x. s = x # r \<and> p x \<and> c = [])"
  by (cases s) auto

lemma in_matches_Star:
  "(r, c) \<in> set (matches (Star p) s) \<longleftrightarrow>
     (\<exists>u. s = u @ r \<and> length u \<le> length (takeWhile p s) \<and> c = [])"
proof -
  have "(r, c) \<in> set (matches (Star p) s) \<longleftrightarrow>
          (\<exists>k\<le>length (takeWhile p s). r = drop k s \<and> c = [])"
    unfolding matches.simps set_map set_rev set_upt by (auto simp: less_Suc_eq_le)
  also have "\<dots> \<longleftrightarrow> (\<exists>u. s = u @ r \<and> length u \<le> length (takeWhile p s) \<and> c = [])"
  proof
    assume "\<exists>k\<le>length (takeWhile p s). r = drop k s \<and> c = []"
    then obtain k where k: "k \<le> length (takeWhile p s)" "r = drop k s" "c = []" by blast
    have "k \<le> length s" using k(1) length_takeWhile_le [of p s] by (rule order_trans)
    then have "s = take k s @ r \<and> length (take k s) \<le> length (takeWhile p s) \<and> c = []"
      using k by simp
    then show "\<exists>u. s = u @ r \<and> length u \<le> length (takeWhile p s) \<and> c = []" by blast
  next
    assume "\<exists>u. s = u @ r \<and> length u \<le> length (takeWhile p s) \<and> c = []"
    then obtain u where "s = u @ r" "length u \<le> length (takeWhile p s)" "c = []" by blast
    then have "length u \<le> length (takeWhile p s) \<and> r = drop (length u) s \<and> c = []" by simp
    then show "\<exists>k\<le>length (takeWhile p s). r = drop k s \<and> c = []" by blast
  qed
  finally show ?thesis .
qed

lemma in_matches_Cat:
  "(r, c) \<in> set (matches (Cat a b) s) \<longleftrightarrow>
     (\<exists>s1 c1 c2. (s1, c1) \<in> set (matches a s) \<and> (r, c2) \<in> set (matches b s1) \<and> c = c1 @ c2)"
  by force

lemma in_matches_Opt:
  "(r, c) \<in> set (matches (Opt a) s) \<longleftrightarrow> (r, c) \<in> set (matches a s) \<or> (r = s \<and> c = [])"
  by auto

lemma in_matches_Grp:
  "(r, c) \<in> set (matches (Grp i a) s) \<longleftrightarrow>
     (\<exists>c1. (r, c1) \<in> set (matches a s) \<and> c = (i, take (length s - length r) s) # c1)"
  by force

lemma in_matches_Eos:
  "(r, c) \<in> set (matches Eos s) \<longleftrightarrow> (s = [] \<or> s = [newline]) \<and> r = s \<and> c = []"
  by auto

lemmas in_matches = in_matches_Lit in_matches_Cls in_matches_Star in_matches_Cat
  in_matches_Opt in_matches_Grp in_matches_Eos

lemma re_match_SomeD: "re_match r s = Some c \<Longrightarrow> \<exists>rest. (rest, c) \<in> set (matches r s)"
  by (auto simp: re_match_def split: list.splits)

lemma class_match_code:
  assumes "re_match class_pattern line = Some m"
  shows "\<exists>a b c d. group m 1 = [a, b, 46, c, d] \<and> isdecimal a \<and> isdecimal b \<and> isdecimal c \<and> isdecimal d"
proof -
  from re_match_SomeD [OF assms] obtain rest where "(rest, m) \<in> set (matches class_pattern line)" ..
  then show ?thesis
    unfolding class_pattern_def seq_def hashes_def plus_def
    by (simp only: foldr.simps o_apply in_matches) (auto simp: group_def is_char_def)
qed

lemma section_match_code:
  assumes "re_match section_pattern line = Some m"
  shows "\<exists>a. group m 1 = [a] \<and> upper a"
proof -
  from re_match_SomeD [OF assms] obtain rest where "(rest, m) \<in> set (matches section_pattern line)" ..
  then show ?thesis
    unfolding section_pattern_def seq_def plus_def
    by (simp only: foldr.simps o_apply in_matches) (auto simp: group_def)
qed

lemma section_start_shape:
  assumes "re_match section_start_pattern line = Some m"
  shows "\<exists>a u d r. line = ascii ''# Section '' @ a # u @ d # r \<and> upper a \<and> dash d"
proof -
  from re_match_SomeD [OF assms] obtain rest where "(rest, m) \<in> set (matches section_start_pattern line)" ..
  then show ?thesis
    unfolding section_start_pattern_def seq_def
    by (simp only: foldr.simps o_apply in_matches) auto
qed


subsection \<open>Splitting\<close>

lemma split_from_first:
  "\<exists>rest. split_from [c] cur s = (rev cur @ takeWhile (\<lambda>x. x \<noteq> c) s) # rest"
proof (induction s arbitrary: cur)
  case Nil
  then show ?case by simp
next
  case (Cons a s)
  show ?case
  proof (cases "a = c")
    case True
    then show ?thesis by (simp add: startswith_def)
  next
    case False
    from Cons [of "a # cur"] False show ?thesis by (simp add: startswith_def)
  qed
qed

lemma item_split_first: "item (py_split [c] s) 0 = Inr (takeWhile (\<lambda>x. x \<noteq> c) s)"
  using split_from_first [of c "[]" s] by (auto simp: py_split_def item_def)

lemma split_from_nonempty: "split_from sep cur s \<noteq> []"
  by (induction sep cur s rule: split_from.induct) auto

lemma contains_split_from:
  "contains s sep \<Longrightarrow> sep \<noteq> [] \<Longrightarrow> 2 \<le> length (split_from sep cur s)"
proof (induction sep cur s rule: split_from.induct)
  case (1 sep cur)
  then show ?case by simp
next
  case (2 sep cur c cs)
  show ?case
  proof (cases "startswith (c # cs) sep")
    case True
    have "split_from sep [] (drop (length sep) (c # cs)) \<noteq> []" by (rule split_from_nonempty)
    then have "1 \<le> length (split_from sep [] (drop (length sep) (c # cs)))"
      by (simp add: Suc_le_eq)
    with True "2.prems" show ?thesis by simp
  next
    case False
    with "2.prems" have "contains cs sep" by simp
    with False "2.IH"(2) "2.prems" show ?thesis by simp
  qed
qed

subsection \<open>The activity scan keeps the codes of a record\<close>

lemma in_mode_frame:
  assumes "in_mode m l ca act = Inr (ca', act')"
  shows "class_code act' = class_code act \<and> group_code act' = group_code act
     \<and> division_code act' = division_code act \<and> section_code act' = section_code act"
  using assms
  by (auto simp: in_mode_def Let_def bindE_def split: if_splits sum.splits)

lemma activity_loop_step:
  assumes "activity_loop lines i j md ca act = Inr act'"
  shows "act' = act \<or>
     (\<exists>md' ca' act1. activity_loop lines i (j + 1) md' ca' act1 = Inr act'
        \<and> class_code act1 = class_code act \<and> group_code act1 = group_code act
        \<and> division_code act1 = division_code act \<and> section_code act1 = section_code act
        \<and> j < length lines)"
proof (cases "j < length lines \<and> j < i + 50")
  case False
  with assms show ?thesis by (simp add: activity_loop.simps)
next
  case True
  from assms True show ?thesis
    apply (subst (asm) activity_loop.simps)
    apply (simp only: if_True Let_def)
    apply (simp split: sum.splits bool.splits if_splits option.splits prod.splits)
    using in_mode_frame apply blast+
    done
qed

lemma activity_loop_frame:
  "activity_loop lines i j md ca act = Inr act' \<Longrightarrow>
     class_code act' = class_code act \<and> group_code act' = group_code act
     \<and> division_code act' = division_code act \<and> section_code act' = section_code act"
proof (induction "length lines - j" arbitrary: j md ca act rule: less_induct)
  case less
  from activity_loop_step [OF less.prems] show ?case
  proof
    assume "act' = act"
    then show ?thesis by simp
  next
    assume "\<exists>md' ca' act1. activity_loop lines i (j + 1) md' ca' act1 = Inr act'
        \<and> class_code act1 = class_code act \<and> group_code act1 = group_code act
        \<and> division_code act1 = division_code act \<and> section_code act1 = section_code act
        \<and> j < length lines"
    then obtain md' ca' act1 where
      rec: "activity_loop lines i (j + 1) md' ca' act1 = Inr act'" and
      fr: "class_code act1 = class_code act" "group_code act1 = group_code act"
          "division_code act1 = division_code act" "section_code act1 = section_code act" and
      j: "j < length lines"
      by blast
    from j have lt: "length lines - (j + 1) < length lines - j" by arith
    from less.hyps [OF lt rec] fr show ?thesis by simp
  qed
qed


subsection \<open>One step of the parser\<close>

lemma bindE_Inr: "bindE (Inr x) f = f x"
  by (simp add: bindE_def)

lemma bindE_Inl: "bindE (Inl e) f = Inl e"
  by (simp add: bindE_def)

lemma bindE_eq_Inr: "bindE m f = Inr y \<longleftrightarrow> (\<exists>x. m = Inr x \<and> f x = Inr y)"
  by (cases m) (simp_all add: bindE_def)

lemma ascii_dot: "ascii ''.'' = [46]"
  by (simp add: ascii_def)

lemma class_branch_emits:
  assumes run: "class_branch lines i m st = Inr st'"
    and guard: "length (group m 1) = 5 \<and> group m 1 ! 2 = 46 \<and> group m 1 \<notin> processed_codes st"
    and sec: "code (current_section st) \<noteq> []"
  shows "\<exists>act. activities st' = activities st @ [act]
         \<and> processed_codes st' = insert (group m 1) (processed_codes st)
         \<and> current_section st' = current_section st
         \<and> class_code act = group m 1 \<and> group_code act = take 4 (group m 1)
         \<and> division_code act = takeWhile (\<lambda>x. x \<noteq> 46) (group m 1)
         \<and> section_code act = code (current_section st)"
proof -
  let ?c = "group m 1"
  let ?d = "takeWhile (\<lambda>x. x \<noteq> 46) ?c"
  let ?dv = "if ?d \<noteq> code (current_division st) then recovered ?d else current_division st"
  let ?gr = "if take 4 ?c \<noteq> code (current_group st) then recovered (take 4 ?c)
             else current_group st"
  let ?new = "new_activity (current_section st) ?dv ?gr ?d (take 4 ?c) ?c (group m 2)"
  have "class_branch lines i m st =
      bindE (activity_loop lines i (i + 1) None None ?new)
        (\<lambda>act. Inr (st\<lparr>current_division := ?dv, current_group := ?gr,
                   activities := activities st @ [act],
                   processed_codes := insert ?c (processed_codes st)\<rparr>))"
    using guard sec
    by (simp add: class_branch_def Let_def bindE_Inr ascii_dot item_split_first)
  with run obtain act where
    loop: "activity_loop lines i (i + 1) None None ?new = Inr act" and
    st': "st' = st\<lparr>current_division := ?dv, current_group := ?gr,
                   activities := activities st @ [act],
                   processed_codes := insert ?c (processed_codes st)\<rparr>"
    by (auto simp: bindE_eq_Inr)
  from activity_loop_frame [OF loop]
  have "class_code act = ?c \<and> group_code act = take 4 ?c \<and> division_code act = ?d
     \<and> section_code act = code (current_section st)"
    by (simp add: new_activity_def)
  with st' show ?thesis by simp
qed

lemma class_branch_orphan:
  assumes guard: "length (group m 1) = 5 \<and> group m 1 ! 2 = 46 \<and> group m 1 \<notin> processed_codes st"
    and sec: "code (current_section st) = []"
  shows "class_branch lines i m st =
     Inr (st\<lparr>current_division :=
                (if takeWhile (\<lambda>x. x \<noteq> 46) (group m 1) \<noteq> code (current_division st)
                 then recovered (takeWhile (\<lambda>x. x \<noteq> 46) (group m 1))
                 else current_division st),
              current_group :=
                (if take 4 (group m 1) \<noteq> code (current_group st)
                 then recovered (take 4 (group m 1)) else current_group st)\<rparr>)"
  using guard sec
  by (simp add: class_branch_def Let_def bindE_Inr ascii_dot item_split_first)

lemma class_branch_shape:
  assumes "class_branch lines i m st = Inr st'"
  shows "current_section st' = current_section st \<and>
     (activities st' = activities st \<and> processed_codes st' = processed_codes st \<or>
      (\<exists>act. activities st' = activities st @ [act]
         \<and> processed_codes st' = insert (group m 1) (processed_codes st)
         \<and> group m 1 \<notin> processed_codes st
         \<and> class_code act = group m 1 \<and> group_code act = take 4 (group m 1)
         \<and> division_code act = takeWhile (\<lambda>x. x \<noteq> 46) (group m 1)
         \<and> section_code act = code (current_section st)
         \<and> code (current_section st) \<noteq> []))"
proof (cases "length (group m 1) = 5 \<and> group m 1 ! 2 = 46 \<and> group m 1 \<notin> processed_codes st")
  case False
  with assms show ?thesis by (auto simp: class_branch_def Let_def)
next
  case guard: True
  show ?thesis
  proof (cases "code (current_section st) \<noteq> []")
    case False
    then have "code (current_section st) = []" by simp
    from class_branch_orphan [OF guard this, of lines i] assms show ?thesis by auto
  next
    case True
    from class_branch_emits [OF assms guard True] guard True show ?thesis by blast
  qed
qed

lemma parse_line_shape:
  assumes "parse_line lines i st = Inr st'"
  shows "(activities st' = activities st \<and> processed_codes st' = processed_codes st \<or>
      (\<exists>mc act. match_line (strip (lines ! i)) = ClassH mc
         \<and> activities st' = activities st @ [act]
         \<and> processed_codes st' = insert (group mc 1) (processed_codes st)
         \<and> group mc 1 \<notin> processed_codes st
         \<and> class_code act = group mc 1 \<and> group_code act = take 4 (group mc 1)
         \<and> division_code act = takeWhile (\<lambda>x. x \<noteq> 46) (group mc 1)
         \<and> section_code act = code (current_section st)
         \<and> code (current_section st) \<noteq> []))
   \<and> (current_section st' = current_section st \<or>
      (\<exists>ms. match_line (strip (lines ! i)) = SectionH ms
         \<and> code (current_section st') = group ms 1))"
proof (cases "match_line (strip (lines ! i))")
  case (ClassH m)
  with assms have "class_branch lines i m st = Inr st'" by (simp add: parse_line_def)
  from class_branch_shape [OF this] ClassH show ?thesis by auto
qed (use assms in \<open>auto simp: parse_line_def Let_def bindE_def split: sum.splits if_splits\<close>)


subsection \<open>The invariant of the main loop\<close>

lemma emitted_from_mono: "emitted_from lines n r \<Longrightarrow> n \<le> n' \<Longrightarrow> emitted_from lines n' r"
  unfolding emitted_from_def by (meson less_le_trans)

lemma section_seen_mono: "section_seen lines n st \<Longrightarrow> n \<le> n' \<Longrightarrow> section_seen lines n' st"
  unfolding section_seen_def by (meson less_le_trans)

lemma parse_line_invariant:
  assumes step: "parse_line lines i st = Inr st'"
    and d: "distinct (map class_code (activities st))"
    and p: "class_code ` set (activities st) \<subseteq> processed_codes st"
    and e: "\<forall>r\<in>set (activities st). emitted_from lines i r"
    and s: "section_seen lines i st"
  shows "distinct (map class_code (activities st'))
     \<and> class_code ` set (activities st') \<subseteq> processed_codes st'
     \<and> (\<forall>r\<in>set (activities st'). emitted_from lines (Suc i) r)
     \<and> section_seen lines (Suc i) st'"
proof -
  note shape = parse_line_shape [OF step]
  have e': "\<forall>r\<in>set (activities st). emitted_from lines (Suc i) r"
    using e emitted_from_mono [of lines i _ "Suc i"] by simp
  have s': "section_seen lines (Suc i) st'"
  proof -
    from shape have "current_section st' = current_section st \<or>
      (\<exists>ms. match_line (strip (lines ! i)) = SectionH ms
         \<and> code (current_section st') = group ms 1)" ..
    then show ?thesis
    proof
      assume "current_section st' = current_section st"
      with section_seen_mono [OF s, of "Suc i"] show ?thesis
        by (simp add: section_seen_def)
    next
      assume "\<exists>ms. match_line (strip (lines ! i)) = SectionH ms
         \<and> code (current_section st') = group ms 1"
      then show ?thesis unfolding section_seen_def by blast
    qed
  qed
  from shape have "activities st' = activities st \<and> processed_codes st' = processed_codes st \<or>
      (\<exists>mc act. match_line (strip (lines ! i)) = ClassH mc
         \<and> activities st' = activities st @ [act]
         \<and> processed_codes st' = insert (group mc 1) (processed_codes st)
         \<and> group mc 1 \<notin> processed_codes st
         \<and> class_code act = group mc 1 \<and> group_code act = take 4 (group mc 1)
         \<and> division_code act = takeWhile (\<lambda>x. x \<noteq> 46) (group mc 1)
         \<and> section_code act = code (current_section st)
         \<and> code (current_section st) \<noteq> [])" ..
  then show ?thesis
  proof
    assume "activities st' = activities st \<and> processed_codes st' = processed_codes st"
    with d p e' s' show ?thesis by simp
  next
    assume "\<exists>mc act. match_line (strip (lines ! i)) = ClassH mc
         \<and> activities st' = activities st @ [act]
         \<and> processed_codes st' = insert (group mc 1) (processed_codes st)
         \<and> group mc 1 \<notin> processed_codes st
         \<and> class_code act = group mc 1 \<and> group_code act = take 4 (group mc 1)
         \<and> division_code act = takeWhile (\<lambda>x. x \<noteq> 46) (group mc 1)
         \<and> section_code act = code (current_section st)
         \<and> code (current_section st) \<noteq> []"
    then obtain mc act where
      cls: "match_line (strip (lines ! i)) = ClassH mc" and
      acts: "activities st' = activities st @ [act]" and
      procd: "processed_codes st' = insert (group mc 1) (processed_codes st)" and
      fresh: "group mc 1 \<notin> processed_codes st" and
      act: "class_code act = group mc 1" "group_code act = take 4 (group mc 1)"
           "division_code act = takeWhile (\<lambda>x. x \<noteq> 46) (group mc 1)"
           "section_code act = code (current_section st)" and
      sec: "code (current_section st) \<noteq> []"
      by blast
    from s sec obtain k ms where
      k: "k < i" "match_line (strip (lines ! k)) = SectionH ms"
         "code (current_section st) = group ms 1"
      unfolding section_seen_def by blast
    have "emitted_from lines (Suc i) act"
      unfolding emitted_from_def using k cls act by (intro exI [of _ k] exI [of _ i] exI [of _ ms] exI [of _ mc]) simp
    moreover have "class_code act \<notin> class_code ` set (activities st)"
      using p fresh act(1) by auto
    ultimately show ?thesis using d p e' s' acts procd act(1) by auto
  qed
qed

lemma parse_loop_invariant:
  "parse_loop lines i st = Inr st' \<Longrightarrow> i \<le> length lines \<Longrightarrow>
   distinct (map class_code (activities st)) \<Longrightarrow>
   class_code ` set (activities st) \<subseteq> processed_codes st \<Longrightarrow>
   \<forall>r\<in>set (activities st). emitted_from lines i r \<Longrightarrow>
   section_seen lines i st \<Longrightarrow>
   distinct (map class_code (activities st'))
     \<and> (\<forall>r\<in>set (activities st'). emitted_from lines (length lines) r)"
proof (induction lines i st rule: parse_loop.induct)
  case (1 lines i st)
  show ?case
  proof (cases "i < length lines")
    case False
    with "1.prems" show ?thesis by (simp add: parse_loop.simps)
  next
    case True
    with "1.prems"(1) obtain st1 where
      step: "parse_line lines i st = Inr st1" and rest: "parse_loop lines (i + 1) st1 = Inr st'"
      by (subst (asm) parse_loop.simps) (auto split: sum.splits)
    from parse_line_invariant [OF step "1.prems"(3,4,5,6)] True
    show ?thesis using "1.IH" [OF True step rest] by simp
  qed
qed


lemma isdecimal_dot: "\<not> isdecimal 46"
  by (simp add: isdecimal_def decimal_table_def)

lemma match_line_ClassH: "match_line l = ClassH m \<Longrightarrow> re_match class_pattern l = Some m"
  by (auto simp: match_line_def split: if_splits option.splits)

lemma match_line_SectionH: "match_line l = SectionH m \<Longrightarrow> re_match section_pattern l = Some m"
  by (auto simp: match_line_def split: if_splits option.splits)

lemma class_heading_prefix:
  assumes "match_line l = ClassH m"
  shows "takeWhile (\<lambda>x. x \<noteq> 46) (group m 1) = take 2 (group m 1)
     \<and> length (group m 1) = 5 \<and> group m 1 ! 2 = 46
     \<and> list_all isdecimal (take 2 (group m 1))"
proof -
  from class_match_code [OF match_line_ClassH [OF assms]] obtain a b c d where
    g: "group m 1 = [a, b, 46, c, d]" and dec: "isdecimal a" "isdecimal b"
    by blast
  from dec isdecimal_dot have "a \<noteq> 46" "b \<noteq> 46" by auto
  with g dec show ?thesis by simp
qed

lemma parse_records:
  assumes "parse_nace_activities text = Inr recs"
  shows "distinct (map class_code recs)
     \<and> (\<forall>r\<in>set recs. emitted_from (py_split [newline] text) (length (py_split [newline] text)) r)"
proof -
  from assms obtain st where
    loop: "parse_loop (py_split [newline] text) 0 initial_state = Inr st" and
    recs: "recs = sort_key class_code (activities st)"
    by (auto simp: parse_nace_activities_def bindE_eq_Inr)
  have "distinct (map class_code (activities st))
     \<and> (\<forall>r\<in>set (activities st).
           emitted_from (py_split [newline] text) (length (py_split [newline] text)) r)"
    by (rule parse_loop_invariant [OF loop])
       (simp_all add: initial_state_def section_seen_def no_ancestor_def)
  then show ?thesis unfolding recs by (simp add: distinct_map)
qed

subsection \<open>The states of a run\<close>












subsection \<open>The segmenter\<close>

lemma contains_single: "contains s [c] \<longleftrightarrow> c \<in> set s"
  by (induction s) (auto simp: startswith_def)

lemma strip_nonempty:
  assumes "x \<in> set s" and "\<not> isspace x"
  shows "strip s \<noteq> []"
proof -
  from assms have "x \<in> set (dropWhile isspace s)"
    by (induction s) auto
  then have "x \<in> set (rev (dropWhile isspace s))" by simp
  with assms(2) have "dropWhile isspace (rev (dropWhile isspace s)) \<noteq> []"
    by (metis dropWhile_eq_Nil_conv)
  then show ?thesis by (simp add: strip_def rstrip_def lstrip_def)
qed


lemma first_separator_in:
  assumes "dash d" and "d \<in> set l"
  shows "first_separator l \<in> set l"
  using assms unfolding first_separator_def dash_def by auto

lemma section_name_of_first:
  assumes "first_separator l \<in> set l"
  shows "section_name_of [en_dash, em_dash, hyphen] l cur = Inr (Some (name_before_dash l))"
proof (cases "en_dash \<in> set l")
  case True
  then show ?thesis
    by (simp add: contains_single item_split_first bindE_Inr name_before_dash_def
          first_separator_def)
next
  case no_en: False
  show ?thesis
  proof (cases "em_dash \<in> set l")
    case True
    with no_en show ?thesis
      by (simp add: contains_single item_split_first bindE_Inr name_before_dash_def
            first_separator_def)
  next
    case False
    with no_en assms have "hyphen \<in> set l" by (simp add: first_separator_def)
    with no_en False show ?thesis
      by (simp add: contains_single item_split_first bindE_Inr name_before_dash_def
            first_separator_def)
  qed
qed

lemma first_separator_not_hash: "first_separator l \<noteq> 35"
  by (simp add: first_separator_def en_dash_def em_dash_def hyphen_def)

lemma not_isspace_hash: "\<not> isspace 35"
  by (simp add: isspace_def whitespace_table_def)

lemma name_before_dash_nonempty: "name_before_dash (35 # t) \<noteq> []"
proof -
  have "takeWhile (\<lambda>c. c \<noteq> first_separator (35 # t)) (35 # t)
      = 35 # takeWhile (\<lambda>c. c \<noteq> first_separator (35 # t)) t"
    using first_separator_not_hash [of "35 # t"] by simp
  then have "35 \<in> set (takeWhile (\<lambda>c. c \<noteq> first_separator (35 # t)) (35 # t))"
    by simp
  then show ?thesis
    unfolding name_before_dash_def using not_isspace_hash by (rule strip_nonempty)
qed

lemma ascii_section: "ascii ''# Section '' = 35 # ascii '' Section ''"
  by (simp add: ascii_def)

lemma section_name_of_heading:
  assumes "section_start l"
  shows "section_name_of [en_dash, em_dash, hyphen] l cur = Inr (Some (name_before_dash l))
     \<and> name_before_dash l \<noteq> []"
proof -
  from assms obtain m where "re_match section_start_pattern l = Some m"
    by (auto simp: section_start_def)
  from section_start_shape [OF this] obtain a u d r where
    l: "l = ascii ''# Section '' @ a # u @ d # r" and d: "dash d"
    by blast
  have "d \<in> set l" unfolding l by simp
  from first_separator_in [OF d this]
  have name: "section_name_of [en_dash, em_dash, hyphen] l cur = Inr (Some (name_before_dash l))"
    by (rule section_name_of_first)
  have "l = 35 # (ascii '' Section '' @ a # u @ d # r)"
    unfolding l ascii_section by simp
  then have "name_before_dash l \<noteq> []"
    using name_before_dash_nonempty by simp
  with name show ?thesis by simp
qed

lemma segments_skip: "segments (dropWhile (\<lambda>x. \<not> section_start x) ls) = segments ls"
  by (induction ls) auto

lemma split_line_heading:
  assumes "section_start (strip raw)"
  shows "split_line raw (done, cur, cc) =
     Inr ((if truthy cur
           then done @ [\<lparr>name = (case cur of Some n \<Rightarrow> n | None \<Rightarrow> []),
                          content = join [newline] cc\<rparr>]
           else done),
          Some (name_before_dash (strip raw)), [strip raw])"
  using assms section_name_of_heading [OF assms, of cur]
  by (simp add: split_line_def Let_def bindE_Inr section_start_def)

lemma split_line_other:
  assumes "\<not> section_start (strip raw)"
  shows "split_line raw (done, cur, cc) =
     (if truthy cur then Inr (done, cur, cc @ [strip raw]) else Inr (done, cur, cc))"
  using assms by (simp add: split_line_def Let_def section_start_def)


lemma truthy_Some: "truthy (Some n) \<longleftrightarrow> n \<noteq> []"
  by (simp add: truthy_def)

lemma truthy_None: "\<not> truthy None"
  by (simp add: truthy_def)

lemma split_loop_in_section:
  assumes "n \<noteq> []" and "cc \<noteq> []"
  shows "bindE (split_loop raws (segs, Some n, cc))
           (\<lambda>(done, current, current_content).
              if truthy current \<and> current_content \<noteq> []
              then Inr (done @ [\<lparr>name = (case current of Some n \<Rightarrow> n | None \<Rightarrow> []),
                                 content = join [newline] current_content\<rparr>])
              else Inr done)
       = Inr (segs @ \<lparr>name = n,
                       content = join [newline]
                         (cc @ takeWhile (\<lambda>x. \<not> section_start x) (map strip raws))\<rparr>
                # segments (map strip raws))"
  using assms
proof (induction raws arbitrary: segs n cc)
  case Nil
  then show ?case by (simp add: bindE_Inr truthy_Some)
next
  case (Cons raw raws)
  show ?case
  proof (cases "section_start (strip raw)")
    case True
    from section_name_of_heading [OF True] have ne: "name_before_dash (strip raw) \<noteq> []"
      by simp
    have step: "split_line raw (segs, Some n, cc) =
        Inr (segs @ [\<lparr>name = n, content = join [newline] cc\<rparr>],
             Some (name_before_dash (strip raw)), [strip raw])"
      using split_line_heading [OF True, of segs "Some n" cc] Cons.prems
      by (simp add: truthy_Some)
    have "[strip raw] \<noteq> []" by simp
    from Cons.IH [OF ne this, of "segs @ [\<lparr>name = n, content = join [newline] cc\<rparr>]"]
    show ?thesis using True by (simp add: step bindE_Inr)
  next
    case False
    have step: "split_line raw (segs, Some n, cc) = Inr (segs, Some n, cc @ [strip raw])"
      using split_line_other [OF False, of segs "Some n" cc] Cons.prems
      by (simp add: truthy_Some)
    have "cc @ [strip raw] \<noteq> []" by simp
    from Cons.IH [OF Cons.prems(1) this, of segs]
    show ?thesis using False by (simp add: step bindE_Inr)
  qed
qed

lemma split_loop_before_section:
  "bindE (split_loop raws (segs, None, []))
           (\<lambda>(done, current, current_content).
              if truthy current \<and> current_content \<noteq> []
              then Inr (done @ [\<lparr>name = (case current of Some n \<Rightarrow> n | None \<Rightarrow> []),
                                 content = join [newline] current_content\<rparr>])
              else Inr done)
       = Inr (segs @ segments (map strip raws))"
proof (induction raws)
  case Nil
  then show ?case by (simp add: bindE_Inr truthy_None)
next
  case (Cons raw raws)
  show ?case
  proof (cases "section_start (strip raw)")
    case True
    from section_name_of_heading [OF True] have ne: "name_before_dash (strip raw) \<noteq> []"
      by simp
    have step: "split_line raw (segs, None, []) =
        Inr (segs, Some (name_before_dash (strip raw)), [strip raw])"
      using split_line_heading [OF True, of segs None "[]"] by (simp add: truthy_None)
    have "[strip raw] \<noteq> []" by simp
    from split_loop_in_section [OF ne this, of raws segs]
    show ?thesis using True by (simp add: step bindE_Inr)
  next
    case False
    have step: "split_line raw (segs, None, []) = Inr (segs, None, [])"
      using split_line_other [OF False, of segs None "[]"] by (simp add: truthy_None)
    from Cons.IH show ?thesis using False by (simp add: step bindE_Inr)
  qed
qed

section \<open>Properties of the parser\<close>

subsection \<open>Exceptions\<close>

text \<open>
  Claim C1: for every input text \<open>parse_nace_activities\<close> returns normally and never
  raises, in particular when a \<open>*\<close> line follows a "This class excludes:" switch while
  the list of excluded activities is still empty.

  The code does not do this.  \<open>current_activity\<close> is not reset when the mode changes, so
  after an activity of the included list the \<open>*\<close> line passes the test
  \<open>current_activity\<close> and indexes the empty excluded list with \<open>[-1]\<close>: IndexError.
\<close>

theorem parse_nace_activities_raises:
  "parse_nace_activities (join [newline]
     [ascii ''# Section A - Agriculture'',
      ascii ''01.11 Growing of cereals'',
      ascii ''This class includes:'',
      ascii ''- Growing of wheat'',
      ascii ''This class excludes:'',
      ascii ''* Winter wheat'']) = Inl IndexError"
  by code_simp

subsection \<open>Sub-activities\<close>

text \<open>
  Claim C2: a \<open>*\<close> line is attached to the most recently appended activity of the same
  mode, and a \<open>*\<close> line with no activity appended yet in the current mode is dropped
  with no other effect.

  The code does not do this.  With an activity in the included list and none in the
  excluded list, a \<open>*\<close> line in the excluded mode is not dropped: the scan raises
  IndexError.  And after an activity whose text is empty (the line \<open>-\<close>), a \<open>*\<close> line of
  the same mode is dropped, because the empty \<open>current_activity\<close> is false.
\<close>

theorem activity_loop_orphan_subactivity:
  "activity_loop
     [ascii ''01.11 Growing of cereals'', ascii ''This class includes:'', ascii ''- Wheat'',
      ascii ''This class excludes:'', ascii ''* Winter wheat'']
     0 1 None None (new_activity no_ancestor no_ancestor no_ancestor [] [] [] [])
   = Inl IndexError
   \<and> activity_loop
     [ascii ''01.11 Growing of cereals'', ascii ''This class includes:'', ascii ''-'',
      ascii ''* Winter wheat'']
     0 1 None None (new_activity no_ancestor no_ancestor no_ancestor [] [] [] [])
   = Inr ((new_activity no_ancestor no_ancestor no_ancestor [] [] [] [])
            \<lparr>included_activities := [\<lparr>activity = [], subactivities = []\<rparr>]\<rparr>)"
  by code_simp

subsection \<open>Records\<close>

text \<open>
  Claim C3: no two records in the output of \<open>parse_nace_activities\<close> have the same
  \<open>class_code\<close>; a class heading whose code was already processed is not emitted again.
\<close>

theorem class_codes_unique:
  "parse_nace_activities text = Inr recs \<Longrightarrow> distinct (map class_code recs)"
  using parse_records by blast

theorem class_codes_unique_witness:
  "(let r = new_activity \<lparr>code = ascii ''B'', name = ascii ''Mining'', description = []\<rparr>
              (recovered (ascii ''05'')) (recovered (ascii ''05.1''))
              (ascii ''05'') (ascii ''05.1'') (ascii ''05.10'') (ascii ''Mining of hard coal'')
    in parse_nace_activities (join [newline]
         [ascii ''# Section B - Mining'', ascii ''05.10 Mining of hard coal'',
          ascii ''05.10 Mining of hard coal'']) = Inr [r]
       \<and> distinct (map class_code [r]))"
proof -
  have run: "parse_nace_activities (join [newline]
         [ascii ''# Section B - Mining'', ascii ''05.10 Mining of hard coal'',
          ascii ''05.10 Mining of hard coal''])
     = Inr [new_activity \<lparr>code = ascii ''B'', name = ascii ''Mining'', description = []\<rparr>
              (recovered (ascii ''05'')) (recovered (ascii ''05.1''))
              (ascii ''05'') (ascii ''05.1'') (ascii ''05.10'') (ascii ''Mining of hard coal'')]"
    by code_simp
  from run class_codes_unique [OF run] show ?thesis unfolding Let_def by (rule conjI)
qed

text \<open>
  Claim C4: in every record of the output the group code starts with the division code,
  which is two decimal digits, and the first four characters of the class code are the
  group code.
\<close>

theorem hierarchy_consistent:
  assumes "parse_nace_activities text = Inr recs" and "r \<in> set recs"
  shows "startswith (group_code r) (division_code r)
     \<and> length (division_code r) = 2 \<and> list_all isdecimal (division_code r)
     \<and> take 4 (class_code r) = group_code r"
proof -
  from parse_records [OF assms(1)] assms(2)
  have "emitted_from (py_split [newline] text) (length (py_split [newline] text)) r" by blast
  then obtain l mc where
    cls: "match_line l = ClassH mc" and
    r: "class_code r = group mc 1" "group_code r = take 4 (group mc 1)"
       "division_code r = takeWhile (\<lambda>x. x \<noteq> 46) (group mc 1)"
    unfolding emitted_from_def by blast
  from class_heading_prefix [OF cls] r show ?thesis
    by (simp add: startswith_def min_def)
qed

theorem hierarchy_consistent_witness:
  "(let r = new_activity \<lparr>code = ascii ''C'', name = ascii ''Manufacturing'', description = []\<rparr>
              \<lparr>code = ascii ''10'', name = ascii ''Food'', description = []\<rparr>
              \<lparr>code = ascii ''10.1'', name = ascii ''Meat'', description = []\<rparr>
              (ascii ''10'') (ascii ''10.1'') (ascii ''10.11'') (ascii ''Processing of meat'')
    in parse_nace_activities (join [newline]
         [ascii ''# Section C - Manufacturing'', ascii ''10 Food'', ascii ''10.1 Meat'',
          ascii ''10.11 Processing of meat'']) = Inr [r]
       \<and> r \<in> set [r]
       \<and> startswith (group_code r) (division_code r)
       \<and> length (division_code r) = 2 \<and> list_all isdecimal (division_code r)
       \<and> take 4 (class_code r) = group_code r)"
proof -
  have run: "parse_nace_activities (join [newline]
         [ascii ''# Section C - Manufacturing'', ascii ''10 Food'', ascii ''10.1 Meat'',
          ascii ''10.11 Processing of meat''])
     = Inr [new_activity \<lparr>code = ascii ''C'', name = ascii ''Manufacturing'', description = []\<rparr>
              \<lparr>code = ascii ''10'', name = ascii ''Food'', description = []\<rparr>
              \<lparr>code = ascii ''10.1'', name = ascii ''Meat'', description = []\<rparr>
              (ascii ''10'') (ascii ''10.1'') (ascii ''10.11'') (ascii ''Processing of meat'')]"
    by code_simp
  have mem: "new_activity \<lparr>code = ascii ''C'', name = ascii ''Manufacturing'', description = []\<rparr>
              \<lparr>code = ascii ''10'', name = ascii ''Food'', description = []\<rparr>
              \<lparr>code = ascii ''10.1'', name = ascii ''Meat'', description = []\<rparr>
              (ascii ''10'') (ascii ''10.1'') (ascii ''10.11'') (ascii ''Processing of meat'')
     \<in> set [new_activity \<lparr>code = ascii ''C'', name = ascii ''Manufacturing'', description = []\<rparr>
              \<lparr>code = ascii ''10'', name = ascii ''Food'', description = []\<rparr>
              \<lparr>code = ascii ''10.1'', name = ascii ''Meat'', description = []\<rparr>
              (ascii ''10'') (ascii ''10.1'') (ascii ''10.11'') (ascii ''Processing of meat'')]"
    by simp
  from run mem hierarchy_consistent [OF run mem] show ?thesis unfolding Let_def by blast
qed

text \<open>
  Claim C5: a record is emitted only if a section heading matched earlier in the
  document: its section code is not empty, and its class code comes from a class heading
  that a section heading with its section code precedes.  A class heading with no
  section heading before it gives no record.
\<close>

theorem record_needs_section:
  assumes "parse_nace_activities text = Inr recs" and "r \<in> set recs"
  shows "section_code r \<noteq> []
     \<and> (\<exists>k j ms mc. k < j \<and> j < length (py_split [newline] text)
          \<and> match_line (strip (py_split [newline] text ! k)) = SectionH ms
          \<and> section_code r = group ms 1
          \<and> match_line (strip (py_split [newline] text ! j)) = ClassH mc
          \<and> class_code r = group mc 1)"
proof -
  from parse_records [OF assms(1)] assms(2)
  have "emitted_from (py_split [newline] text) (length (py_split [newline] text)) r" by blast
  then obtain k j ms mc where
    *: "k < j" "j < length (py_split [newline] text)"
       "match_line (strip (py_split [newline] text ! k)) = SectionH ms"
       "section_code r = group ms 1"
       "match_line (strip (py_split [newline] text ! j)) = ClassH mc"
       "class_code r = group mc 1"
    unfolding emitted_from_def by blast
  from section_match_code [OF match_line_SectionH [OF *(3)]] *(4)
  have "section_code r \<noteq> []" by auto
  with * show ?thesis by blast
qed

theorem record_needs_section_witness:
  "(let text = join [newline]
         [ascii ''05.10 Coal'', ascii ''# Section B - Mining'', ascii ''05.20 Lignite''];
        r = new_activity \<lparr>code = ascii ''B'', name = ascii ''Mining'', description = []\<rparr>
              (recovered (ascii ''05'')) (recovered (ascii ''05.2''))
              (ascii ''05'') (ascii ''05.2'') (ascii ''05.20'') (ascii ''Lignite'')
    in parse_nace_activities text = Inr [r]
       \<and> r \<in> set [r]
       \<and> section_code r \<noteq> []
       \<and> (\<exists>k j ms mc. k < j \<and> j < length (py_split [newline] text)
            \<and> match_line (strip (py_split [newline] text ! k)) = SectionH ms
            \<and> section_code r = group ms 1
            \<and> match_line (strip (py_split [newline] text ! j)) = ClassH mc
            \<and> class_code r = group mc 1))"
proof -
  have run: "parse_nace_activities (join [newline]
         [ascii ''05.10 Coal'', ascii ''# Section B - Mining'', ascii ''05.20 Lignite''])
     = Inr [new_activity \<lparr>code = ascii ''B'', name = ascii ''Mining'', description = []\<rparr>
              (recovered (ascii ''05'')) (recovered (ascii ''05.2''))
              (ascii ''05'') (ascii ''05.2'') (ascii ''05.20'') (ascii ''Lignite'')]"
    by code_simp
  have mem: "new_activity \<lparr>code = ascii ''B'', name = ascii ''Mining'', description = []\<rparr>
              (recovered (ascii ''05'')) (recovered (ascii ''05.2''))
              (ascii ''05'') (ascii ''05.2'') (ascii ''05.20'') (ascii ''Lignite'')
     \<in> set [new_activity \<lparr>code = ascii ''B'', name = ascii ''Mining'', description = []\<rparr>
              (recovered (ascii ''05'')) (recovered (ascii ''05.2''))
              (ascii ''05'') (ascii ''05.2'') (ascii ''05.20'') (ascii ''Lignite'')]"
    by simp
  from run mem record_needs_section [OF run mem] show ?thesis unfolding Let_def by blast
qed





subsection \<open>Order of the output\<close>

text \<open>
  Claim C6: the output of \<open>parse_nace_activities\<close> is sorted non-decreasing by
  \<open>class_code\<close> in the lexicographic order of strings, whatever the order of the class
  headings in the document.
\<close>

theorem parse_nace_activities_sorted:
  "parse_nace_activities text = Inr recs \<Longrightarrow> sorted (map class_code recs)"
  by (auto simp: parse_nace_activities_def bindE_def split: sum.splits)

theorem parse_nace_activities_sorted_witness:
  "parse_nace_activities (join [newline]
      [ascii ''# Section A - Agriculture'', ascii ''01.12 Growing of rice'',
       ascii ''01.11 Growing of cereals''])
   = Inr [new_activity \<lparr>code = ascii ''A'', name = ascii ''Agriculture'', description = []\<rparr>
            (recovered (ascii ''01'')) (recovered (ascii ''01.1''))
            (ascii ''01'') (ascii ''01.1'') (ascii ''01.11'') (ascii ''Growing of cereals''),
          new_activity \<lparr>code = ascii ''A'', name = ascii ''Agriculture'', description = []\<rparr>
            (recovered (ascii ''01'')) (recovered (ascii ''01.1''))
            (ascii ''01'') (ascii ''01.1'') (ascii ''01.12'') (ascii ''Growing of rice'')]
   \<and> sorted (map class_code
        [new_activity \<lparr>code = ascii ''A'', name = ascii ''Agriculture'', description = []\<rparr>
            (recovered (ascii ''01'')) (recovered (ascii ''01.1''))
            (ascii ''01'') (ascii ''01.1'') (ascii ''01.11'') (ascii ''Growing of cereals''),
          new_activity \<lparr>code = ascii ''A'', name = ascii ''Agriculture'', description = []\<rparr>
            (recovered (ascii ''01'')) (recovered (ascii ''01.1''))
            (ascii ''01'') (ascii ''01.1'') (ascii ''01.12'') (ascii ''Growing of rice'')])"
proof -
  have run: "parse_nace_activities (join [newline]
      [ascii ''# Section A - Agriculture'', ascii ''01.12 Growing of rice'',
       ascii ''01.11 Growing of cereals''])
   = Inr [new_activity \<lparr>code = ascii ''A'', name = ascii ''Agriculture'', description = []\<rparr>
            (recovered (ascii ''01'')) (recovered (ascii ''01.1''))
            (ascii ''01'') (ascii ''01.1'') (ascii ''01.11'') (ascii ''Growing of cereals''),
          new_activity \<lparr>code = ascii ''A'', name = ascii ''Agriculture'', description = []\<rparr>
            (recovered (ascii ''01'')) (recovered (ascii ''01.1''))
            (ascii ''01'') (ascii ''01.1'') (ascii ''01.12'') (ascii ''Growing of rice'')]"
    by code_simp
  from run parse_nace_activities_sorted [OF run] show ?thesis by (rule conjI)
qed

subsection \<open>The description of a section\<close>

text \<open>
  Claim C7: on a section heading the parser looks ahead through three-line windows for
  "This section includes" and records the text after the marker up to the next newline,
  trimmed, with nothing of the lines after the marker's own line; with no marker in any
  window the description is empty.

  The code does not cut at the end of the marker's line.  The window is the three lines
  joined by spaces, so it holds no newline and \<open>.split("\n")[0]\<close> removes nothing: the
  description runs to the end of the window.
\<close>

theorem section_description_runs_over_lines:
  "scan_description (ascii ''This section includes'')
     [ascii ''# Section A - Agriculture'',
      ascii ''This section includes farming activities.'',
      ascii ''01 Crop production'',
      ascii ''01.11 Growing of cereals''] 0
   = Inr (ascii ''farming activities. 01 Crop production 01.11 Growing of cereals'')"
  by code_simp

section \<open>Properties of the validator\<close>

text \<open>
  Claim C8: \<open>validate_nace_activities\<close> returns true if and only if the number of
  records is 615; the counts of distinct sections, divisions and groups are reported
  only and do not change the result.
\<close>

theorem validate_nace_activities_result:
  "snd (validate_nace_activities acts) = (length acts = 615)"
  by (simp add: validate_nace_activities_def Let_def)

section \<open>Properties of the segmenter\<close>

text \<open>
  Claim C9: \<open>split_nace_by_sections\<close> returns one entry per section-heading line, named
  by the text of the heading before the dash separator (the en dash, then the em dash,
  then the hyphen), whose content is exactly the lines from the heading up to the next
  section heading, with the original line breaks and order; the lines before the first
  heading are discarded.

  As stated this fails: the content is not made of the lines of the document but of the
  lines with their leading and trailing whitespace removed.
\<close>

theorem split_nace_by_sections_strips:
  "map_sum id (map content)
     (split_nace_by_sections (join [newline] [ascii ''# Section A - Farming'', ascii ''  crops'']))
   \<noteq> Inr (map content
       (segments (py_split [newline]
          (join [newline] [ascii ''# Section A - Farming'', ascii ''  crops'']))))"
  by code_simp

text \<open>
  Claim C9, amended: \<open>split_nace_by_sections\<close> always returns, and its result is the
  segmentation of the stripped lines of the text: one entry per stripped line that
  matches the section pattern, named by the trimmed text before the separator, whose
  content is that stripped line and the stripped lines after it up to the next such
  line, joined by newlines in their order; the lines before the first are discarded.
\<close>

theorem split_nace_by_sections_segments:
  "split_nace_by_sections text = Inr (segments (map strip (py_split [newline] text)))"
  unfolding split_nace_by_sections_def
  using split_loop_before_section [of "py_split [newline] text" "[]"] by simp

end
